theory Spec2Isabelle
  imports Main "HOL-Library.Sublist" "HOL-Library.Multiset"
begin

section \<open>The text restorer of scripts/restore-test-file.py\<close>

text \<open>
  The script reads one file, passes its content through twelve assignments
  \<^verbatim>\<open>content = ...\<close> (eleven calls of \<^verbatim>\<open>str.replace\<close> and one of \<^verbatim>\<open>re.sub\<close>) and
  writes the result to a second file. A Python \<^verbatim>\<open>str\<close> is a sequence of Unicode code
  points, so a text is a list of code points, each a natural number.
\<close>

subsection \<open>Texts and literals\<close>

type_synonym str = "nat list"

definition ascii :: "string \<Rightarrow> str" where
  "ascii s = map of_char s"

definition SP :: nat where "SP = 0x20"
definition LF :: nat where "LF = 0x0A"
definition CR :: nat where "CR = 0x0D"
definition APOSTROPHE :: nat where "APOSTROPHE = 0x27"
definition QUOTATION_MARK :: nat where "QUOTATION_MARK = 0x22"

text \<open>The non-ASCII literals of lines 14 to 21, by code point.\<close>

definition CHECK_MARK :: nat where "CHECK_MARK = 0x2713"
definition CROSS_MARK :: nat where "CROSS_MARK = 0x274C"
definition CLIPBOARD :: nat where "CLIPBOARD = 0x1F4CB"
definition MAGNIFIER :: nat where "MAGNIFIER = 0x1F50D"
definition BROOM :: nat where "BROOM = 0x1F9F9"
definition BAR_CHART :: nat where "BAR_CHART = 0x1F4CA"

text \<open>
  The typographic quotation marks that the comments of lines 23 to 27 name. None of
  them occurs in the script: the bytes between the quotes of lines 24 to 27 are the
  ASCII characters 0x27 and 0x22.
\<close>

definition LEFT_SINGLE_QUOTATION_MARK :: nat where "LEFT_SINGLE_QUOTATION_MARK = 0x2018"
definition RIGHT_SINGLE_QUOTATION_MARK :: nat where "RIGHT_SINGLE_QUOTATION_MARK = 0x2019"
definition LEFT_DOUBLE_QUOTATION_MARK :: nat where "LEFT_DOUBLE_QUOTATION_MARK = 0x201C"
definition RIGHT_DOUBLE_QUOTATION_MARK :: nat where "RIGHT_DOUBLE_QUOTATION_MARK = 0x201D"

subsection \<open>\<^verbatim>\<open>str.replace\<close>\<close>

text \<open>
  \<^verbatim>\<open>s.replace(old, new)\<close> scans \<^verbatim>\<open>s\<close> from the left and replaces every occurrence of
  \<^verbatim>\<open>old\<close> that does not overlap an occurrence already replaced; the text put in is
  not scanned again. With an empty \<^verbatim>\<open>old\<close>, Python puts \<^verbatim>\<open>new\<close> before every
  character and at the end.
\<close>

fun replace_from :: "str \<Rightarrow> str \<Rightarrow> str \<Rightarrow> str" where
  "replace_from old new [] = []"
| "replace_from old new (c # cs) =
     (if prefix old (c # cs) then new @ replace_from old new (drop (length old - 1) cs)
      else c # replace_from old new cs)"

definition replace :: "str \<Rightarrow> str \<Rightarrow> str \<Rightarrow> str" where
  "replace s old new =
     (if old = [] then new @ concat (map (\<lambda>c. c # new) s) else replace_from old new s)"

subsection \<open>\<^verbatim>\<open>re.sub(r'   +', '  ', content)\<close>\<close>

text \<open>
  The pattern is two spaces followed by one or more spaces, the last part greedy.
  \<^verbatim>\<open>re.sub\<close> tries the pattern at each position from the left; where three spaces
  start, the match takes every space that follows, two spaces are put out, and the
  scan goes on behind the match. Elsewhere the character is copied.
\<close>

function re_sub_spaces :: "str \<Rightarrow> str" where
  "re_sub_spaces [] = []"
| "re_sub_spaces (c # cs) =
     (if prefix [SP, SP, SP] (c # cs)
      then [SP, SP] @ re_sub_spaces (dropWhile (\<lambda>x. x = SP) cs)
      else c # re_sub_spaces cs)"
  by pat_completeness auto
termination
  by (relation "measure length") (auto simp: length_dropWhile_le le_imp_less_Suc)

subsection \<open>The twelve assignments\<close>

text \<open>Lines 14 and 15.\<close>

definition restore_markers :: "str \<Rightarrow> str" where
  "restore_markers content =
     replace (replace content [CHECK_MARK] (ascii '' '')) [CROSS_MARK] (ascii ''X'')"

text \<open>Lines 18 to 21.\<close>

definition restore_operators :: "str \<Rightarrow> str" where
  "restore_operators content =
     replace (replace (replace (replace content
       [CLIPBOARD] (ascii ''=''))
       [MAGNIFIER] (ascii ''<''))
       [BROOM] (ascii ''>''))
       [BAR_CHART] (ascii ''9'')"

text \<open>
  Lines 24 and 25 are one statement. The three apostrophes after \<^verbatim>\<open>replace(\<close> on
  line 24 open a triple-quoted literal, which the three apostrophes after
  \<^verbatim>\<open>replace(\<close> on line 25 close. Its value, the first argument of the call, is the
  rest of line 24 (with its comment), the line break, and the start of line 25. The
  second argument is the literal of one apostrophe that follows on line 25.
\<close>

definition LINE_24_25_OLD :: str where
  "LINE_24_25_OLD =
     ascii '', \"'' @ [APOSTROPHE] @ ascii ''\")  # LEFT SINGLE QUOTATION MARK'' @ [LF]
     @ ascii ''content = content.replace(''"

text \<open>
  Lines 24 to 27. On lines 26 and 27 both arguments are the literal of one ASCII
  quotation mark.
\<close>

definition normalize_quotes :: "str \<Rightarrow> str" where
  "normalize_quotes content =
     replace (replace (replace content
       LINE_24_25_OLD [APOSTROPHE])
       [QUOTATION_MARK] [QUOTATION_MARK])
       [QUOTATION_MARK] [QUOTATION_MARK]"

text \<open>Lines 30 and 31.\<close>

definition normalize_line_endings :: "str \<Rightarrow> str" where
  "normalize_line_endings content = replace (replace content [CR, LF] [LF]) [CR] [LF]"

text \<open>Line 34.\<close>

definition collapse_spaces :: "str \<Rightarrow> str" where
  "collapse_spaces content = re_sub_spaces content"

text \<open>Lines 14 to 34: the value of \<^verbatim>\<open>content\<close> at line 38, from its value after line 11.\<close>

definition restore :: "str \<Rightarrow> str" where
  "restore content =
     collapse_spaces (normalize_line_endings (normalize_quotes
       (restore_operators (restore_markers content))))"

subsection \<open>Reading and writing\<close>

text \<open>
  The file system maps a path to the text that \<^verbatim>\<open>f.read()\<close> returns for it; a path
  outside the domain does not exist. \<^verbatim>\<open>open(path, 'r')\<close> of a missing path raises
  \<^verbatim>\<open>FileNotFoundError\<close>. \<^verbatim>\<open>open(path, 'w')\<close> raises an \<^verbatim>\<open>OSError\<close> where the path
  cannot be opened for writing, and otherwise the file holds what was written. An
  exception is not caught: the run ends there, with the world as it is.
\<close>

datatype error = FileNotFoundError | OSError

record world =
  files :: "string \<rightharpoonup> str"
  unwritable :: "string set"
  stdout :: "str list"

definition SOURCE_PATH :: string where
  "SOURCE_PATH = ''tests/e2e/stage-gather-scrape.test.ts.broken''"

definition DEST_PATH :: string where
  "DEST_PATH = ''tests/e2e/stage-gather-scrape.test.ts''"

definition MESSAGE :: str where
  "MESSAGE = [CHECK_MARK] @ ascii '' File restored successfully''"

definition read_file :: "world \<Rightarrow> string \<Rightarrow> error + str" where
  "read_file w p = (case files w p of None \<Rightarrow> Inl FileNotFoundError | Some t \<Rightarrow> Inr t)"

definition write_file :: "world \<Rightarrow> string \<Rightarrow> str \<Rightarrow> error + world" where
  "write_file w p t =
     (if p \<in> unwritable w then Inl OSError else Inr (w\<lparr>files := (files w)(p \<mapsto> t)\<rparr>))"

text \<open>The whole script: the exception that ended the run, if any, and the world left.\<close>

definition main :: "world \<Rightarrow> error option \<times> world" where
  "main w =
     (case read_file w SOURCE_PATH of
        Inl e \<Rightarrow> (Some e, w)
      | Inr content \<Rightarrow>
          (case write_file w DEST_PATH (restore content) of
             Inl e \<Rightarrow> (Some e, w)
           | Inr w' \<Rightarrow> (None, w'\<lparr>stdout := stdout w' @ [MESSAGE]\<rparr>)))"

section \<open>Reference definitions\<close>

text \<open>
  Line-ending normalisation as the specification words it: every carriage return
  followed by a linefeed becomes one linefeed, every other carriage return becomes a
  linefeed, every other character stays.
\<close>

fun crlf_to_lf :: "str \<Rightarrow> str" where
  "crlf_to_lf [] = []"
| "crlf_to_lf [c] = (if c = CR then [LF] else [c])"
| "crlf_to_lf (c # d # cs) =
     (if c = CR \<and> d = LF then LF # crlf_to_lf cs
      else if c = CR then LF # crlf_to_lf (d # cs)
      else c # crlf_to_lf (d # cs))"

text \<open>
  The four pairs of lines 18 to 21 as a table, and the replacements of a table applied
  one after the other in the order of the table.
\<close>

definition operator_table :: "(nat \<times> str) list" where
  "operator_table =
     [(CLIPBOARD, ascii ''=''), (MAGNIFIER, ascii ''<''), (BROOM, ascii ''>''),
      (BAR_CHART, ascii ''9'')]"

definition replace_each :: "(nat \<times> str) list \<Rightarrow> str \<Rightarrow> str" where
  "replace_each table content = foldl (\<lambda>s (old, new). replace s [old] new) content table"

text \<open>
  An input for the whole pipeline: the first argument of the call of lines 24 and 25
  with three spaces, not two, before the number sign.
\<close>

definition LINE_24_25_OLD_WIDE :: str where
  "LINE_24_25_OLD_WIDE =
     ascii '', \"'' @ [APOSTROPHE] @ ascii ''\")   # LEFT SINGLE QUOTATION MARK'' @ [LF]
     @ ascii ''content = content.replace(''"

text \<open>A world with a destination file and no source file.\<close>

definition world_without_source :: world where
  "world_without_source =
     \<lparr>files = [DEST_PATH \<mapsto> ascii ''old''], unwritable = {}, stdout = []\<rparr>"

section \<open>Evaluation\<close>

lemmas code_points =
  SP_def LF_def CR_def APOSTROPHE_def QUOTATION_MARK_def
  CHECK_MARK_def CROSS_MARK_def CLIPBOARD_def MAGNIFIER_def BROOM_def BAR_CHART_def
  LEFT_SINGLE_QUOTATION_MARK_def RIGHT_SINGLE_QUOTATION_MARK_def
  LEFT_DOUBLE_QUOTATION_MARK_def RIGHT_DOUBLE_QUOTATION_MARK_def

lemmas steps =
  restore_def restore_markers_def restore_operators_def normalize_quotes_def
  normalize_line_endings_def collapse_spaces_def replace_def ascii_def

lemma LINE_24_25_OLD_code_points:
  "LINE_24_25_OLD =
    [44, 32, 34, 39, 34, 41, 32, 32, 35, 32,
     76, 69, 70, 84, 32, 83, 73, 78, 71, 76, 69, 32,
     81, 85, 79, 84, 65, 84, 73, 79, 78, 32, 77, 65, 82, 75, 10,
     99, 111, 110, 116, 101, 110, 116, 32, 61, 32,
     99, 111, 110, 116, 101, 110, 116, 46, 114, 101, 112, 108, 97, 99, 101, 40]"
  by (simp add: LINE_24_25_OLD_def ascii_def code_points)

subsection \<open>Single-character replacement\<close>

lemma replace_single:
  "replace s [a] [b] = map (\<lambda>c. if c = a then b else c) s"
  by (induction s) (auto simp: replace_def)

lemma replace_from_single:
  "replace_from [a] [b] s = map (\<lambda>c. if c = a then b else c) s"
  by (induction s) auto

subsection \<open>Line endings\<close>

lemma replace_from_CRLF:
  "replace_from [CR] [LF] (replace_from [CR, LF] [LF] s) = crlf_to_lf s"
  by (induction s rule: crlf_to_lf.induct) (auto simp: CR_def LF_def)

lemma normalize_line_endings_crlf_to_lf: "normalize_line_endings s = crlf_to_lf s"
  by (simp add: normalize_line_endings_def replace_def replace_from_CRLF)

lemma normalize_line_endings_no_CR: "CR \<notin> set (normalize_line_endings s)"
  by (auto simp: normalize_line_endings_def replace_single CR_def LF_def)

subsection \<open>The operator table\<close>

lemma restore_operators_table: "restore_operators s = replace_each operator_table s"
  by (simp add: restore_operators_def replace_each_def operator_table_def)

lemma operator_commute:
  assumes "p \<in> set operator_table" "q \<in> set operator_table"
  shows "replace (replace s [fst p] (snd p)) [fst q] (snd q)
       = replace (replace s [fst q] (snd q)) [fst p] (snd p)"
  using assms
  by (auto simp: operator_table_def ascii_def replace_single code_points)

subsection \<open>Runs of spaces\<close>

lemma re_sub_spaces_copy:
  "\<not> prefix [SP, SP, SP] (c # cs) \<Longrightarrow> re_sub_spaces (c # cs) = c # re_sub_spaces cs"
  by (simp only: re_sub_spaces.simps if_False)

lemma re_sub_spaces_match:
  "prefix [SP, SP, SP] (c # cs) \<Longrightarrow>
   re_sub_spaces (c # cs) = SP # SP # re_sub_spaces (dropWhile (\<lambda>x. x = SP) cs)"
  by (simp only: re_sub_spaces.simps if_True append.simps)

lemma dropWhile_SP_head:
  "dropWhile (\<lambda>x. x = SP) cs = [] \<or> hd (dropWhile (\<lambda>x. x = SP) cs) \<noteq> SP"
  using hd_dropWhile [of "\<lambda>x. x = SP" cs] by blast

lemma re_sub_spaces_head:
  "xs = [] \<or> hd xs \<noteq> SP \<Longrightarrow> re_sub_spaces xs = [] \<or> hd (re_sub_spaces xs) \<noteq> SP"
  by (cases xs) auto

lemma re_sub_spaces_no_pair:
  "\<not> prefix [SP, SP] xs \<Longrightarrow> \<not> prefix [SP, SP] (re_sub_spaces xs)"
proof (cases xs)
  case Nil
  then show ?thesis by simp
next
  case (Cons c cs)
  assume a: "\<not> prefix [SP, SP] xs"
  show ?thesis
  proof (cases cs)
    case Nil
    with Cons show ?thesis by simp
  next
    case (Cons d ds)
    with \<open>xs = c # cs\<close> a show ?thesis by auto
  qed
qed

lemma re_sub_spaces_no_triple: "\<not> sublist [SP, SP, SP] (re_sub_spaces xs)"
proof (induction xs rule: re_sub_spaces.induct)
  case 1
  then show ?case by simp
next
  case (2 c cs)
  show ?case
  proof (cases "prefix [SP, SP, SP] (c # cs)")
    case True
    let ?r = "re_sub_spaces (dropWhile (\<lambda>x. x = SP) cs)"
    have h: "?r = [] \<or> hd ?r \<noteq> SP"
      using dropWhile_SP_head by (rule re_sub_spaces_head)
    have "\<not> sublist [SP, SP, SP] ?r" using 2 True by simp
    with h have "\<not> sublist [SP, SP, SP] (SP # SP # ?r)"
      by (cases ?r) (auto simp: sublist_Cons_right)
    with True show ?thesis by simp
  next
    case False
    have ih: "\<not> sublist [SP, SP, SP] (re_sub_spaces cs)" using 2 False by simp
    have "\<not> prefix [SP, SP, SP] (c # re_sub_spaces cs)"
    proof (cases "c = SP")
      case True
      with False have "\<not> prefix [SP, SP] cs" by simp
      then have "\<not> prefix [SP, SP] (re_sub_spaces cs)" by (rule re_sub_spaces_no_pair)
      then show ?thesis by simp
    next
      case False
      then show ?thesis by simp
    qed
    moreover have "re_sub_spaces (c # cs) = c # re_sub_spaces cs"
      using False by (rule re_sub_spaces_copy)
    ultimately show ?thesis using ih by (simp only: sublist_Cons_right) simp
  qed
qed

lemma dropWhile_append_stop:
  "ys = [] \<or> \<not> P (hd ys) \<Longrightarrow> dropWhile P (xs @ ys) = dropWhile P xs @ ys"
proof (induction xs)
  case Nil
  then show ?case by (cases ys) auto
next
  case (Cons x xs)
  then show ?case by simp
qed

lemma last_dropWhile_eq:
  "dropWhile P xs \<noteq> [] \<Longrightarrow> last (dropWhile P xs) = last xs"
  by (induction xs) (auto split: if_splits)

lemma no_match_append_right:
  assumes "\<not> prefix [SP, SP, SP] xs" and "ys = [] \<or> hd ys \<noteq> SP"
  shows "\<not> prefix [SP, SP, SP] (xs @ ys)"
proof (cases ys)
  case Nil
  with assms show ?thesis by simp
next
  case (Cons y ys')
  with assms have "y \<noteq> SP" by simp
  with assms(1) Cons show ?thesis
    by (cases xs; cases "tl xs"; cases "tl (tl xs)") auto
qed

lemma no_match_append_left:
  assumes "\<not> prefix [SP, SP, SP] xs" and "xs \<noteq> []" and "last xs \<noteq> SP"
  shows "\<not> prefix [SP, SP, SP] (xs @ ys)"
  using assms
  by (cases xs; cases "tl xs"; cases "tl (tl xs)") (auto split: if_splits)

lemma re_sub_spaces_append_right:
  "ys = [] \<or> hd ys \<noteq> SP \<Longrightarrow>
   re_sub_spaces (xs @ ys) = re_sub_spaces xs @ re_sub_spaces ys"
proof (induction xs rule: re_sub_spaces.induct)
  case 1
  then show ?case by simp
next
  case (2 c cs)
  show ?case
  proof (cases "prefix [SP, SP, SP] (c # cs)")
    case True
    then have m: "prefix [SP, SP, SP] (c # (cs @ ys))"
      using prefix_prefix [of "[SP, SP, SP]" "c # cs" ys] by simp
    have d: "dropWhile (\<lambda>x. x = SP) (cs @ ys) = dropWhile (\<lambda>x. x = SP) cs @ ys"
      using "2.prems" by (rule dropWhile_append_stop)
    have "re_sub_spaces (dropWhile (\<lambda>x. x = SP) cs @ ys)
        = re_sub_spaces (dropWhile (\<lambda>x. x = SP) cs) @ re_sub_spaces ys"
      using "2.IH"(1) [OF True "2.prems"] .
    then show ?thesis
      using re_sub_spaces_match [OF True] re_sub_spaces_match [OF m] d by simp
  next
    case False
    then have "\<not> prefix [SP, SP, SP] ((c # cs) @ ys)"
      using "2.prems" by (rule no_match_append_right)
    then have n: "\<not> prefix [SP, SP, SP] (c # (cs @ ys))" by simp
    have "re_sub_spaces (cs @ ys) = re_sub_spaces cs @ re_sub_spaces ys"
      using "2.IH"(2) [OF False "2.prems"] .
    then show ?thesis
      using re_sub_spaces_copy [OF False] re_sub_spaces_copy [OF n] by simp
  qed
qed

lemma re_sub_spaces_append_left:
  "xs = [] \<or> last xs \<noteq> SP \<Longrightarrow>
   re_sub_spaces (xs @ ys) = re_sub_spaces xs @ re_sub_spaces ys"
proof (induction xs rule: re_sub_spaces.induct)
  case 1
  then show ?case by simp
next
  case (2 c cs)
  then have l: "last (c # cs) \<noteq> SP" by simp
  show ?case
  proof (cases "prefix [SP, SP, SP] (c # cs)")
    case True
    then have m: "prefix [SP, SP, SP] (c # (cs @ ys))"
      using prefix_prefix [of "[SP, SP, SP]" "c # cs" ys] by simp
    from True have ne: "cs \<noteq> []" by auto
    with l have lc: "last cs \<noteq> SP" by simp
    from ne have mem: "last cs \<in> set cs" by simp
    with lc have ex: "\<exists>x\<in>set cs. \<not> x = SP" by (intro bexI [of _ "last cs"])
    have d: "dropWhile (\<lambda>x. x = SP) (cs @ ys) = dropWhile (\<lambda>x. x = SP) cs @ ys"
      by (rule dropWhile_append1 [of "last cs"]) (simp_all add: mem lc)
    from ex have "dropWhile (\<lambda>x. x = SP) cs \<noteq> []" by (simp add: dropWhile_eq_Nil_conv)
    then have "last (dropWhile (\<lambda>x. x = SP) cs) \<noteq> SP"
      using lc by (simp add: last_dropWhile_eq)
    then have "re_sub_spaces (dropWhile (\<lambda>x. x = SP) cs @ ys)
        = re_sub_spaces (dropWhile (\<lambda>x. x = SP) cs) @ re_sub_spaces ys"
      using "2.IH"(1) [OF True] by blast
    then show ?thesis
      using re_sub_spaces_match [OF True] re_sub_spaces_match [OF m] d by simp
  next
    case False
    then have "\<not> prefix [SP, SP, SP] ((c # cs) @ ys)"
      using l by (intro no_match_append_left) simp_all
    then have n: "\<not> prefix [SP, SP, SP] (c # (cs @ ys))" by simp
    from l have "cs = [] \<or> last cs \<noteq> SP" by (auto split: if_splits)
    then have "re_sub_spaces (cs @ ys) = re_sub_spaces cs @ re_sub_spaces ys"
      using "2.IH"(2) [OF False] by blast
    then show ?thesis
      using re_sub_spaces_copy [OF False] re_sub_spaces_copy [OF n] by simp
  qed
qed

lemma re_sub_spaces_replicate:
  "re_sub_spaces (replicate n SP) = replicate (if 3 \<le> n then 2 else n) SP"
proof (cases "3 \<le> n")
  case True
  then have "n = Suc (Suc (Suc (n - 3)))" by arith
  then obtain k where n: "n = Suc (Suc (Suc k))" ..
  then show ?thesis by (simp add: numeral_2_eq_2)
next
  case False
  then have "n = 0 \<or> n = 1 \<or> n = 2" by arith
  then show ?thesis by (auto simp: numeral_2_eq_2)
qed

subsection \<open>Replacements that find nothing\<close>

lemma replace_from_absent:
  "\<not> sublist old s \<Longrightarrow> replace_from old new s = s"
  by (induction s) (auto simp: sublist_Cons_right)

lemma replace_absent:
  "old \<noteq> [] \<Longrightarrow> \<not> sublist old s \<Longrightarrow> replace s old new = s"
  by (simp add: replace_def replace_from_absent)

lemma replace_single_absent: "a \<notin> set s \<Longrightarrow> replace s [a] new = s"
  by (rule replace_absent) (auto simp: sublist_def)

lemma replace_same: "replace s [a] [a] = s"
  by (simp add: replace_single map_idI)

subsection \<open>The characters of the output\<close>

text \<open>
  No step puts out a marker or a carriage return, and lines 14 to 21 and 30 to 31
  remove every one: the output of the whole pipeline holds none of the six markers and
  no carriage return.
\<close>

lemma set_replace_from: "set (replace_from old new s) \<subseteq> set s \<union> set new"
proof (induction old new s rule: replace_from.induct)
  case (1 old new)
  then show ?case by simp
next
  case (2 old new c cs)
  have "set (drop (length old - 1) cs) \<subseteq> set cs" by (rule set_drop_subset)
  with 2 show ?case by (auto split: if_splits)
qed

lemma set_re_sub_spaces: "set (re_sub_spaces s) \<subseteq> set s"
proof (induction s rule: re_sub_spaces.induct)
  case 1
  then show ?case by simp
next
  case (2 c cs)
  have "set (dropWhile (\<lambda>x. x = SP) cs) \<subseteq> set cs"
    by (auto dest: set_dropWhileD)
  with 2 show ?case by (auto split: if_splits)
qed

lemma markers_gone_after_line_21:
  "set (restore_operators (restore_markers x))
     \<inter> {CHECK_MARK, CROSS_MARK, CLIPBOARD, MAGNIFIER, BROOM, BAR_CHART} = {}"
proof -
  have "restore_operators (restore_markers x) =
      map (\<lambda>c. if c = BAR_CHART then 0x39 else if c = BROOM then 0x3E
             else if c = MAGNIFIER then 0x3C else if c = CLIPBOARD then 0x3D
             else if c = CROSS_MARK then 0x58 else if c = CHECK_MARK then 0x20 else c) x"
    by (simp add: restore_markers_def restore_operators_def replace_single ascii_def code_points)
  then show ?thesis
    by (simp add: code_points disjoint_iff image_iff)
qed

lemma LINE_24_25_OLD_not_empty: "LINE_24_25_OLD \<noteq> []"
  by (simp add: LINE_24_25_OLD_def)

lemma normalize_quotes_one_call:
  "normalize_quotes s = replace_from LINE_24_25_OLD [APOSTROPHE] s"
  by (simp add: normalize_quotes_def replace_same)
    (simp add: replace_def LINE_24_25_OLD_not_empty)

lemma set_normalize_quotes: "set (normalize_quotes s) \<subseteq> set s \<union> {APOSTROPHE}"
  using set_replace_from [of LINE_24_25_OLD "[APOSTROPHE]" s]
  by (simp add: normalize_quotes_one_call)

lemma set_normalize_line_endings: "set (normalize_line_endings s) \<subseteq> set s \<union> {LF}"
  using set_replace_from [of "[CR, LF]" "[LF]" s]
    set_replace_from [of "[CR]" "[LF]" "replace_from [CR, LF] [LF] s"]
  by (auto simp: normalize_line_endings_def replace_def)

lemma restore_output_free_of_markers_and_CR:
  "set (restore x)
     \<inter> {CHECK_MARK, CROSS_MARK, CLIPBOARD, MAGNIFIER, BROOM, BAR_CHART, CR} = {}"
proof -
  let ?a = "restore_operators (restore_markers x)"
  let ?b = "normalize_line_endings (normalize_quotes ?a)"
  have "set ?b \<subseteq> set ?a \<union> {APOSTROPHE, LF}"
    using set_normalize_line_endings [of "normalize_quotes ?a"] set_normalize_quotes [of ?a]
    by auto
  with markers_gone_after_line_21 [of x]
  have "set ?b \<inter> {CHECK_MARK, CROSS_MARK, CLIPBOARD, MAGNIFIER, BROOM, BAR_CHART} = {}"
    by (auto simp: code_points)
  moreover have "CR \<notin> set ?b" by (rule normalize_line_endings_no_CR)
  moreover have "set (restore x) \<subseteq> set ?b"
    unfolding restore_def collapse_spaces_def by (rule set_re_sub_spaces)
  ultimately show ?thesis by blast
qed

text \<open>
  On an input with none of the six markers in which the first argument of the call of
  lines 24 and 25 does not occur, lines 14 to 27 change nothing.
\<close>

lemma restore_without_markers:
  assumes "set x \<inter> {CHECK_MARK, CROSS_MARK, CLIPBOARD, MAGNIFIER, BROOM, BAR_CHART} = {}"
    and "\<not> sublist LINE_24_25_OLD x"
  shows "restore x = collapse_spaces (normalize_line_endings x)"
proof -
  have "restore_markers x = x"
    using assms(1) by (simp add: restore_markers_def replace_single_absent)
  moreover have "restore_operators x = x"
    using assms(1) by (simp add: restore_operators_def replace_single_absent)
  moreover have "normalize_quotes x = x"
    using assms(2) by (simp add: normalize_quotes_one_call replace_from_absent)
  ultimately show ?thesis by (simp add: restore_def)
qed

section \<open>The claims\<close>

subsection \<open>The pipeline on single inputs\<close>

text \<open>
  C1: idempotence does not hold for the full transformation: there is an input \<open>x\<close>
  for which applying the whole pipeline twice differs from applying it once. Such an
  input is \<open>LINE_24_25_OLD_WIDE\<close>: the first run only collapses its three spaces to
  two, which leaves the first argument of the call of lines 24 and 25; the second
  run replaces that by one apostrophe.
\<close>

theorem restore_not_idempotent: "\<exists>x. restore (restore x) \<noteq> restore x"
proof
  have once: "restore LINE_24_25_OLD_WIDE = LINE_24_25_OLD"
    unfolding LINE_24_25_OLD_code_points
    by (simp add: LINE_24_25_OLD_WIDE_def steps code_points LINE_24_25_OLD_code_points)
  have twice: "restore LINE_24_25_OLD = [APOSTROPHE]"
    unfolding LINE_24_25_OLD_code_points
    by (simp add: steps code_points LINE_24_25_OLD_code_points)
  have "LINE_24_25_OLD \<noteq> [APOSTROPHE]"
    by (simp add: LINE_24_25_OLD_code_points)
  with once twice show "restore (restore LINE_24_25_OLD_WIDE) \<noteq> restore LINE_24_25_OLD_WIDE"
    by simp
qed

text \<open>
  C2, at the input where it fails: the first argument of the call of lines 24 and 25
  is a text of ASCII characters only, so it holds no marker character and no
  typographic quotation mark; line-ending normalisation and whitespace collapse leave
  it as it is; the whole pipeline turns it into one apostrophe.
\<close>

theorem restore_LINE_24_25_OLD:
  "list_all (\<lambda>c. c < 0x80) LINE_24_25_OLD
   \<and> collapse_spaces (normalize_line_endings LINE_24_25_OLD) = LINE_24_25_OLD
   \<and> restore LINE_24_25_OLD = [APOSTROPHE]
   \<and> restore LINE_24_25_OLD \<noteq> collapse_spaces (normalize_line_endings LINE_24_25_OLD)"
  unfolding LINE_24_25_OLD_code_points
  by (simp add: steps code_points LINE_24_25_OLD_code_points)

text \<open>
  C3: on the letter a, three check marks and the letter b, lines 14 and 15 give the
  two letters with three spaces between them, and the whole pipeline gives the two
  letters with exactly two spaces between them.
\<close>

theorem restore_three_check_marks:
  "restore_markers ([0x61, CHECK_MARK, CHECK_MARK, CHECK_MARK, 0x62]) = ascii ''a   b''
   \<and> restore ([0x61, CHECK_MARK, CHECK_MARK, CHECK_MARK, 0x62]) = ascii ''a  b''"
  by (simp add: steps code_points LINE_24_25_OLD_code_points)

text \<open>
  C8, at an input where it fails: a left double quotation mark, the letter a and a
  right double quotation mark come out of the whole pipeline unchanged; neither
  quotation mark is replaced by the ASCII quotation mark.
\<close>

theorem restore_keeps_double_quotation_marks:
  "restore [LEFT_DOUBLE_QUOTATION_MARK, 0x61, RIGHT_DOUBLE_QUOTATION_MARK]
     = [LEFT_DOUBLE_QUOTATION_MARK, 0x61, RIGHT_DOUBLE_QUOTATION_MARK]
   \<and> restore [LEFT_DOUBLE_QUOTATION_MARK, 0x61, RIGHT_DOUBLE_QUOTATION_MARK]
     \<noteq> [QUOTATION_MARK, 0x61, QUOTATION_MARK]"
  by (simp add: steps code_points LINE_24_25_OLD_code_points)

text \<open>
  C9, at an input where it fails: the output of the whole pipeline on the four
  typographic quotation marks holds each of the four.
\<close>

theorem restore_output_holds_quotation_marks:
  "set (restore [LEFT_SINGLE_QUOTATION_MARK, RIGHT_SINGLE_QUOTATION_MARK,
                 LEFT_DOUBLE_QUOTATION_MARK, RIGHT_DOUBLE_QUOTATION_MARK])
   = {LEFT_SINGLE_QUOTATION_MARK, RIGHT_SINGLE_QUOTATION_MARK,
      LEFT_DOUBLE_QUOTATION_MARK, RIGHT_DOUBLE_QUOTATION_MARK}"
  by (simp add: steps code_points LINE_24_25_OLD_code_points)

subsection \<open>Whitespace collapse\<close>

text \<open>
  C4: in the whitespace-collapse step a maximal run of \<open>n\<close> spaces (the text before it
  is empty or ends in another character, the text after it is empty or starts with
  another character) becomes two spaces when \<open>n\<close> is three or more and stays as it is
  when \<open>n\<close> is one or two, and the texts before and after it are collapsed on their
  own. In particular a run of exactly two spaces is kept as exactly two spaces.
\<close>

theorem collapse_spaces_runs:
  assumes "xs = [] \<or> last xs \<noteq> SP" and "ys = [] \<or> hd ys \<noteq> SP"
  shows "collapse_spaces (xs @ replicate n SP @ ys)
           = collapse_spaces xs @ replicate (if 3 \<le> n then 2 else n) SP @ collapse_spaces ys
         \<and> collapse_spaces (xs @ [SP, SP] @ ys)
           = collapse_spaces xs @ [SP, SP] @ collapse_spaces ys"
proof -
  have run: "collapse_spaces (xs @ replicate k SP @ ys)
      = collapse_spaces xs @ replicate (if 3 \<le> k then 2 else k) SP @ collapse_spaces ys" for k
    unfolding collapse_spaces_def
    using re_sub_spaces_append_left [OF assms(1), of "replicate k SP @ ys"]
      re_sub_spaces_append_right [OF assms(2), of "replicate k SP"]
    by (simp add: re_sub_spaces_replicate)
  have "replicate 2 SP = [SP, SP]" by (simp add: numeral_2_eq_2)
  with run [of 2] run [of n] show ?thesis by simp
qed

theorem collapse_spaces_runs_witness:
  "(ascii ''a'' = [] \<or> last (ascii ''a'') \<noteq> SP)
   \<and> (ascii ''b  c'' = [] \<or> hd (ascii ''b  c'') \<noteq> SP)
   \<and> collapse_spaces (ascii ''a'' @ replicate 5 SP @ ascii ''b  c'') = ascii ''a  b  c''
   \<and> collapse_spaces (ascii ''a'' @ [SP, SP] @ ascii ''b  c'') = ascii ''a  b  c''"
proof -
  have l: "ascii ''a'' = [] \<or> last (ascii ''a'') \<noteq> SP"
    by (simp add: ascii_def SP_def)
  have r: "ascii ''b  c'' = [] \<or> hd (ascii ''b  c'') \<noteq> SP"
    by (simp add: ascii_def SP_def)
  have "collapse_spaces (ascii ''a'') = ascii ''a''"
    and "collapse_spaces (ascii ''b  c'') = ascii ''b  c''"
    by (simp_all add: collapse_spaces_def ascii_def SP_def)
  moreover have r5: "replicate 5 SP = [SP, SP, SP, SP, SP]"
    and r2: "replicate 2 SP = [SP, SP]"
    by (simp_all add: numeral_eq_Suc)
  moreover have "collapse_spaces (ascii ''a'' @ replicate 5 SP @ ascii ''b  c'')
      = collapse_spaces (ascii ''a'') @ [SP, SP] @ collapse_spaces (ascii ''b  c'')"
    using collapse_spaces_runs [OF l r, of 5] by (simp add: r2)
  moreover have "collapse_spaces (ascii ''a'' @ [SP, SP] @ ascii ''b  c'')
      = collapse_spaces (ascii ''a'') @ [SP, SP] @ collapse_spaces (ascii ''b  c'')"
    using collapse_spaces_runs [OF l r, of 5] by simp
  ultimately show ?thesis using l r
    by (simp add: ascii_def SP_def)
qed

text \<open>
  C10: for every input, the output of the whole pipeline holds no three consecutive
  spaces, hence no run of three or more.
\<close>

theorem restore_no_three_spaces: "\<not> sublist [SP, SP, SP] (restore x)"
  unfolding restore_def collapse_spaces_def by (rule re_sub_spaces_no_triple)

subsection \<open>A missing source file\<close>

text \<open>
  C5: when the source path does not exist, the run ends with \<^verbatim>\<open>FileNotFoundError\<close> and the
  world is the one it started in: no file is created or changed, the destination among
  them, and nothing is printed.
\<close>

theorem main_source_missing:
  assumes "files w SOURCE_PATH = None"
  shows "fst (main w) = Some FileNotFoundError
         \<and> files (snd (main w)) DEST_PATH = files w DEST_PATH
         \<and> snd (main w) = w"
  using assms by (simp add: main_def read_file_def)

theorem main_source_missing_witness:
  "files world_without_source SOURCE_PATH = None
   \<and> fst (main world_without_source) = Some FileNotFoundError
   \<and> files (snd (main world_without_source)) DEST_PATH = Some (ascii ''old'')
   \<and> snd (main world_without_source) = world_without_source"
proof -
  have h: "files world_without_source SOURCE_PATH = None"
    by (simp add: world_without_source_def SOURCE_PATH_def DEST_PATH_def)
  have "files world_without_source DEST_PATH = Some (ascii ''old'')"
    by (simp add: world_without_source_def)
  with h main_source_missing [OF h] show ?thesis by simp
qed

subsection \<open>Line endings\<close>

text \<open>
  C6: line-ending normalisation turns every carriage return followed by a linefeed
  into one linefeed and every other carriage return into a linefeed (it computes
  \<open>crlf_to_lf\<close>), its output holds no carriage return, and it takes
  \<^verbatim>\<open>line1\r\nline2\rline3\<close> to \<^verbatim>\<open>line1\nline2\nline3\<close>.
\<close>

theorem normalize_line_endings_correct:
  "normalize_line_endings s = crlf_to_lf s
   \<and> CR \<notin> set (normalize_line_endings s)
   \<and> normalize_line_endings
        (ascii ''line1'' @ [CR, LF] @ ascii ''line2'' @ [CR] @ ascii ''line3'')
      = ascii ''line1'' @ [LF] @ ascii ''line2'' @ [LF] @ ascii ''line3''"
proof -
  have "normalize_line_endings
        (ascii ''line1'' @ [CR, LF] @ ascii ''line2'' @ [CR] @ ascii ''line3'')
      = ascii ''line1'' @ [LF] @ ascii ''line2'' @ [LF] @ ascii ''line3''"
    by (simp add: steps code_points)
  then show ?thesis
    using normalize_line_endings_crlf_to_lf [of s] normalize_line_endings_no_CR [of s]
    by (simp only: simp_thms)
qed

subsection \<open>The order of the operator replacements\<close>

text \<open>
  C7: the four replacements of lines 18 to 21 commute: applied in any order (any
  table with the same four pairs), they give what lines 18 to 21 give in theirs.
\<close>

theorem restore_operators_any_order:
  assumes "mset table = mset operator_table"
  shows "replace_each table s = restore_operators s"
proof -
  let ?f = "\<lambda>(old, new) s. replace s [old] new"
  have set_eq: "set table = set operator_table"
    using assms by (rule mset_eq_setD)
  have comm: "?f p \<circ> ?f q = ?f q \<circ> ?f p"
    if "p \<in> set table" "q \<in> set table" for p q
    using operator_commute [of q p] that set_eq
    by (auto simp: fun_eq_iff split: prod.splits)
  have "fold ?f table = fold ?f operator_table"
    using comm assms by (rule fold_multiset_equiv)
  then show ?thesis
    by (simp add: restore_operators_table replace_each_def foldl_conv_fold case_prod_unfold)
qed

theorem restore_operators_any_order_witness:
  "mset (rev operator_table) = mset operator_table
   \<and> replace_each (rev operator_table) [BAR_CHART, 0x61, BROOM, MAGNIFIER, CLIPBOARD]
     = ascii ''9a><=''
   \<and> restore_operators [BAR_CHART, 0x61, BROOM, MAGNIFIER, CLIPBOARD] = ascii ''9a><=''"
proof -
  have h: "mset (rev operator_table) = mset operator_table" by simp
  have "restore_operators [BAR_CHART, 0x61, BROOM, MAGNIFIER, CLIPBOARD] = ascii ''9a><=''"
    by (simp add: steps code_points)
  with h restore_operators_any_order [OF h, of "[BAR_CHART, 0x61, BROOM, MAGNIFIER, CLIPBOARD]"]
  show ?thesis by simp
qed

end
